theory Spec2Isabelle
  imports Complex_Main
begin

section \<open>Lab 0: step-response acquisition and RC model (\<open>main (1).py\<close>)\<close>

text \<open>
  The program has one function with logic, \<open>plot_example\<close>: it opens a serial port,
  sends the byte 0x04, reads lines of the form \<open>time,voltage\<close> until its counter
  \<open>stop_condition\<close> passes 1990, computes the charging curve
  \<open>VMAX * (1 - exp (-t / (R * C * 1000)))\<close> for \<open>t\<close> in \<open>range(2000)\<close> and plots both.

  Conventions of the model.
  \<^item> Python \<open>float\<close> values are modelled by the real number they stand for: a parsed
    literal is the exact decimal it denotes and arithmetic is exact. Rounding to
    binary64, signed zero and overflow of a literal to infinity are not modelled.
    The special values that \<open>float()\<close> accepts by name are kept as constructors.
  \<^item> Decoded text is a \<open>string\<close> whose characters are the code points 0 to 255.
  \<^item> The device is the sequence of results of successive \<open>ser.readline()\<close> calls.
    With \<open>timeout=1\<close> a silent device yields the empty bytes object, so the sequence
    is infinite.
  \<^item> Opening the port may fail. Writing to and reading from the open port are taken
    to succeed, and what the interpreter does with the \<open>Serial\<close> object once the call
    is over is outside the function.
  \<^item> \<open>print\<close> is not modelled.
\<close>

subsection \<open>Python exceptions\<close>

datatype pyexc =
  ValueError | UnicodeDecodeError | SerialException | ZeroDivisionError | OverflowError

text \<open>\<open>except ValueError\<close> matches the class and its subclasses;
  \<open>UnicodeDecodeError\<close> is a subclass of \<open>ValueError\<close>.\<close>

fun is_ValueError :: "pyexc \<Rightarrow> bool" where
  "is_ValueError ValueError = True"
| "is_ValueError UnicodeDecodeError = True"
| "is_ValueError SerialException = False"
| "is_ValueError ZeroDivisionError = False"
| "is_ValueError OverflowError = False"

subsection \<open>The string operations the loop uses\<close>

text \<open>\<open>str.isspace\<close> on the code points below 256.\<close>

definition py_isspace :: "char \<Rightarrow> bool" where
  "py_isspace c =
     (let n = (of_char c :: nat)
      in (9 \<le> n \<and> n \<le> 13) \<or> (28 \<le> n \<and> n \<le> 32) \<or> n = 133 \<or> n = 160)"

text \<open>\<open>data.strip()\<close>: remove leading and trailing whitespace.\<close>

definition strip :: "string \<Rightarrow> string" where
  "strip s = rev (dropWhile py_isspace (rev (dropWhile py_isspace s)))"

text \<open>\<open>data.split(sep)\<close> with a one-character separator: every occurrence splits, and
  the empty string gives one empty field.\<close>

fun split :: "char \<Rightarrow> string \<Rightarrow> string list" where
  "split sep [] = [[]]"
| "split sep (c # cs) =
     (if c = sep then [] # split sep cs
      else (case split sep cs of
              [] \<Rightarrow> [[c]]
            | f # fs \<Rightarrow> (c # f) # fs))"

text \<open>\<open>times_str, volts_str = ...\<close>: unpacking into two names raises \<open>ValueError\<close>
  unless there are exactly two items.\<close>

fun unpack2 :: "'a list \<Rightarrow> pyexc + ('a \<times> 'a)" where
  "unpack2 [a, b] = Inr (a, b)"
| "unpack2 xs = Inl ValueError"

subsection \<open>\<open>float(str)\<close>\<close>

datatype pyfloat = Num real | PosInf | NegInf | NaN

definition is_digit :: "char \<Rightarrow> bool" where
  "is_digit c = (let n = (of_char c :: nat) in 48 \<le> n \<and> n \<le> 57)"

definition digit_val :: "char \<Rightarrow> nat" where
  "digit_val c = of_char c - 48"

definition digits_val :: "string \<Rightarrow> nat" where
  "digits_val ds = foldl (\<lambda>a d. 10 * a + digit_val d) 0 ds"

text \<open>Underscores are allowed between two digits only. The function follows the
  scan of the interpreter: \<open>prev\<close> is the character before the current one, and the
  result is the text without its underscores, or \<open>None\<close> where one is misplaced.\<close>

fun drop_underscores :: "char \<Rightarrow> string \<Rightarrow> string option" where
  "drop_underscores prev [] = (if prev = CHR ''_'' then None else Some [])"
| "drop_underscores prev (c # cs) =
     (if c = CHR ''_'' then
        (if is_digit prev then drop_underscores c cs else None)
      else if prev = CHR ''_'' \<and> \<not> is_digit c then None
      else map_option ((#) c) (drop_underscores c cs))"

text \<open>An optional sign in front: whether it is a minus, and the rest.\<close>

fun take_sign :: "string \<Rightarrow> bool \<times> string" where
  "take_sign (c # cs) =
     (if c = CHR ''-'' then (True, cs)
      else if c = CHR ''+'' then (False, cs)
      else (False, c # cs))"
| "take_sign [] = (False, [])"

text \<open>ASCII lower case, for the names \<open>inf\<close>, \<open>infinity\<close> and \<open>nan\<close>, which are matched
  without regard to case.\<close>

definition ascii_lower :: "char \<Rightarrow> char" where
  "ascii_lower c =
     (let n = (of_char c :: nat) in if 65 \<le> n \<and> n \<le> 90 then char_of (n + 32) else c)"

definition parse_inf_or_nan :: "string \<Rightarrow> pyfloat option" where
  "parse_inf_or_nan s =
     (let (neg, r) = take_sign s; w = map ascii_lower r
      in if w = ''inf'' \<or> w = ''infinity'' then Some (if neg then NegInf else PosInf)
         else if w = ''nan'' then Some NaN
         else None)"

text \<open>The value of a decimal literal with sign \<open>neg\<close>, integer digits \<open>ip\<close>, fraction
  digits \<open>fp\<close> and decimal exponent \<open>e\<close>.\<close>

definition decimal_value :: "bool \<Rightarrow> string \<Rightarrow> string \<Rightarrow> int \<Rightarrow> real" where
  "decimal_value neg ip fp e =
     (let m = real (digits_val (ip @ fp));
          k = e - int (length fp);
          v = (if 0 \<le> k then m * 10 ^ nat k else m / 10 ^ nat (- k))
      in if neg then - v else v)"

text \<open>A decimal literal: sign, digits, optional point and digits (at least one digit in
  all), optional exponent \<open>e\<close> or \<open>E\<close> with sign and at least one digit; nothing may
  follow.\<close>

definition parse_decimal :: "string \<Rightarrow> real option" where
  "parse_decimal s =
     (let (neg, s1) = take_sign s;
          ip = takeWhile is_digit s1;
          s2 = dropWhile is_digit s1;
          (fp, s3) = (case s2 of
                        [] \<Rightarrow> ([], s2)
                      | c # r \<Rightarrow> if c = CHR ''.''
                                 then (takeWhile is_digit r, dropWhile is_digit r)
                                 else ([], s2))
      in if ip = [] \<and> fp = [] then None
         else (case s3 of
                 [] \<Rightarrow> Some (decimal_value neg ip fp 0)
               | c # r \<Rightarrow>
                   if c = CHR ''e'' \<or> c = CHR ''E'' then
                     (let (eneg, r1) = take_sign r;
                          ed = takeWhile is_digit r1
                      in if ed \<noteq> [] \<and> dropWhile is_digit r1 = []
                         then Some (decimal_value neg ip fp
                                      (if eneg then - int (digits_val ed)
                                       else int (digits_val ed)))
                         else None)
                   else None))"

text \<open>The whitespace that \<open>float()\<close> removes around its argument. It is narrower than
  that of \<open>str.strip\<close>: of the code points below 128 only tab, line feed, vertical tab,
  form feed, carriage return and space count, so the separators 0x1C to 0x1F do not.\<close>

definition float_isspace :: "char \<Rightarrow> bool" where
  "float_isspace c =
     (let n = (of_char c :: nat)
      in (9 \<le> n \<and> n \<le> 13) \<or> n = 32 \<or> n = 133 \<or> n = 160)"

definition float_strip :: "string \<Rightarrow> string" where
  "float_strip s = rev (dropWhile float_isspace (rev (dropWhile float_isspace s)))"

text \<open>\<open>float(s)\<close> for a string \<open>s\<close>: surrounding whitespace is removed first, then the
  whole rest must be a special name or a decimal literal; otherwise \<open>ValueError\<close>.\<close>

definition py_float :: "string \<Rightarrow> pyexc + pyfloat" where
  "py_float s =
     (case drop_underscores (CHR 0x00) (float_strip s) of
        None \<Rightarrow> Inl ValueError
      | Some t \<Rightarrow>
          (case parse_inf_or_nan t of
             Some v \<Rightarrow> Inr v
           | None \<Rightarrow>
               (case parse_decimal t of
                  Some x \<Rightarrow> Inr (Num x)
                | None \<Rightarrow> Inl ValueError)))"

subsection \<open>The serial device\<close>

text \<open>What one \<open>ser.readline()\<close> hands to \<open>.decode('utf-8')\<close>: bytes that decode to a
  text (the empty text after a timeout), or bytes that are not valid UTF-8.\<close>

datatype rx = Rx_text string | Rx_undecodable

fun decode_utf8 :: "rx \<Rightarrow> pyexc + string" where
  "decode_utf8 (Rx_text s) = Inr s"
| "decode_utf8 Rx_undecodable = Inl UnicodeDecodeError"

type_synonym device = "nat \<Rightarrow> rx"

text \<open>The environment of one call: \<open>port_up k\<close> says whether the \<open>k\<close>-th call of
  \<open>serial.Serial\<close> during the run (counted from 0) finds the port, and \<open>device\<close> gives
  the lines the device sends once the port is open.\<close>

record env =
  port_up :: "nat \<Rightarrow> bool"
  device :: device

subsection \<open>The acquisition loop of \<open>plot_example\<close>\<close>

text \<open>The part of the frame of \<open>plot_example\<close> that the loop works on: the object \<open>ser\<close>
  (whether it is open, the bytes written to it, the number of \<open>readline\<close> calls made on
  it) and the locals \<open>times\<close>, \<open>volts\<close> and \<open>stop_condition\<close>.\<close>

record frame =
  ser_is_open :: bool
  ser_written :: string
  ser_reads :: nat
  times_l :: "pyfloat list"
  volts :: "pyfloat list"
  stop_condition :: int

text \<open>Lines 59 to 64 on one line of input: decode, strip, split at commas, unpack into
  two names, convert both. Any step may raise, and nothing has been appended yet.\<close>

definition parse_line :: "rx \<Rightarrow> pyexc + (pyfloat \<times> pyfloat)" where
  "parse_line r =
     (case decode_utf8 r of
        Inl e \<Rightarrow> Inl e
      | Inr text \<Rightarrow>
          (let data = strip text
           in case unpack2 (split (CHR '','') data) of
                Inl e \<Rightarrow> Inl e
              | Inr (times_str, volts_str) \<Rightarrow>
                  (case py_float times_str of
                     Inl e \<Rightarrow> Inl e
                   | Inr times_flt \<Rightarrow>
                       (case py_float volts_str of
                          Inl e \<Rightarrow> Inl e
                        | Inr volts_flt \<Rightarrow> Inr (times_flt, volts_flt)))))"

text \<open>The body of the \<open>try\<close>, lines 59 to 68. An exception leaves with the frame as it
  is at that moment: the line has been read, nothing else has changed. On success both
  values are appended and the counter goes up by 10.\<close>

definition try_body :: "device \<Rightarrow> frame \<Rightarrow> (pyexc \<times> frame) + frame" where
  "try_body dev st =
     (let st1 = st\<lparr>ser_reads := ser_reads st + 1\<rparr>
      in case parse_line (dev (ser_reads st)) of
           Inl e \<Rightarrow> Inl (e, st1)
         | Inr (times_flt, volts_flt) \<Rightarrow>
             Inr (st1\<lparr>times_l := times_l st1 @ [times_flt],
                      volts := volts st1 @ [volts_flt],
                      stop_condition := stop_condition st1 + 10\<rparr>))"

text \<open>\<open>try: ... except ValueError: print(...)\<close>: a \<open>ValueError\<close> is swallowed and the loop
  goes on with the frame as the exception left it; any other exception leaves the
  function.\<close>

definition loop_body :: "device \<Rightarrow> frame \<Rightarrow> (pyexc \<times> frame) + frame" where
  "loop_body dev st =
     (case try_body dev st of
        Inr st' \<Rightarrow> Inr st'
      | Inl (e, st') \<Rightarrow> if is_ValueError e then Inr st' else Inl (e, st'))"

text \<open>\<open>while stop_condition <= 1990: ...\<close>. The loop need not end; \<open>None\<close> is a run that
  never leaves it.\<close>

partial_function (option) read_loop :: "device \<Rightarrow> frame \<Rightarrow> ((pyexc \<times> frame) + frame) option"
  where
  "read_loop dev st =
     (if stop_condition st \<le> 1990 then
        (case loop_body dev st of
           Inl ex \<Rightarrow> Some (Inl ex)
         | Inr st' \<Rightarrow> read_loop dev st')
      else Some (Inr st))"

subsection \<open>The theoretical curve\<close>

definition VMAX :: real where "VMAX = 3.094"
definition R :: real where "R = 90.4 * 10 ^ 3"
definition C :: real where "C = 3.3 / 10 ^ 6"

text \<open>\<open>a / b\<close> on floats raises \<open>ZeroDivisionError\<close> for a zero divisor; \<open>math.exp\<close>
  raises \<open>OverflowError\<close> when the result is beyond the largest binary64 number.\<close>

definition py_truediv :: "real \<Rightarrow> real \<Rightarrow> pyexc + real" where
  "py_truediv a b = (if b = 0 then Inl ZeroDivisionError else Inr (a / b))"

definition math_exp :: "real \<Rightarrow> pyexc + real" where
  "math_exp x = (if 2 ^ 1024 \<le> exp x then Inl OverflowError else Inr (exp x))"

text \<open>\<open>list(range(2000))\<close>.\<close>

definition theory_times :: "int list" where
  "theory_times = map int [0..<2000]"

text \<open>One element of the comprehension of line 82:
  \<open>VMAX * (1 - math.exp(-t / (R * C * 1000)))\<close>.\<close>

definition theory_volt :: "int \<Rightarrow> pyexc + real" where
  "theory_volt t =
     (case py_truediv (- real_of_int t) (R * C * 1000) of
        Inl e \<Rightarrow> Inl e
      | Inr q \<Rightarrow>
          (case math_exp q of
             Inl e \<Rightarrow> Inl e
           | Inr x \<Rightarrow> Inr (VMAX * (1 - x))))"

text \<open>A list comprehension \<open>[f(t) for t in xs]\<close>: the first exception ends it.\<close>

fun comprehension :: "('a \<Rightarrow> pyexc + 'b) \<Rightarrow> 'a list \<Rightarrow> pyexc + 'b list" where
  "comprehension f [] = Inr []"
| "comprehension f (x # xs) =
     (case f x of
        Inl e \<Rightarrow> Inl e
      | Inr y \<Rightarrow>
          (case comprehension f xs of
             Inl e \<Rightarrow> Inl e
           | Inr ys \<Rightarrow> Inr (y # ys)))"

definition theory_volts :: "pyexc + real list" where
  "theory_volts = comprehension theory_volt theory_times"

subsection \<open>The whole of \<open>plot_example\<close>\<close>

text \<open>The plot: the series handed to \<open>plot_axes.plot\<close> so far, the axis labels, the grid
  switch and the number of \<open>plot_canvas.draw()\<close> calls.\<close>

datatype series =
  Line_series "int list" "real list"
| Marker_series "pyfloat list" "pyfloat list"

record gui =
  plotted :: "series list"
  x_label :: string
  y_label :: string
  grid_on :: bool
  draws :: nat

text \<open>How a call ends: with an exception (and the frame, if the port had been opened) or
  by returning; in both cases with the plot as the call leaves it.\<close>

datatype result =
  Raised pyexc "frame option" gui
| Returned frame gui

definition plot_example :: "env \<Rightarrow> gui \<Rightarrow> string \<Rightarrow> string \<Rightarrow> result option" where
  "plot_example e plot xlabel ylabel =
     (if \<not> port_up e 0 then Some (Raised SerialException None plot)
      else
        (let ser0 = \<lparr>ser_is_open = True, ser_written = [], ser_reads = 0,
                     times_l = [], volts = [], stop_condition = 0\<rparr>;
             st0 = ser0\<lparr>ser_written := ser_written ser0 @ [CHR 0x04]\<rparr>
         in case read_loop (device e) st0 of
              None \<Rightarrow> None
            | Some (Inl (ex, st)) \<Rightarrow> Some (Raised ex (Some st) plot)
            | Some (Inr st) \<Rightarrow>
                (case theory_volts of
                   Inl ex \<Rightarrow> Some (Raised ex (Some st) plot)
                 | Inr tv \<Rightarrow>
                     Some (Returned st
                       (plot\<lparr>plotted := plotted plot @
                                 [Line_series theory_times tv,
                                  Marker_series (times_l st) (volts st)],
                             x_label := xlabel,
                             y_label := ylabel,
                             grid_on := True,
                             draws := draws plot + 1\<rparr>)))))"

subsection \<open>Notions used to state the properties\<close>

text \<open>The frame with which \<open>plot_example\<close> enters the loop: the port is open, the
  trigger byte has been written, both lists are empty and the counter is 0.\<close>

definition loop_entry :: frame where
  "loop_entry =
     \<lparr>ser_is_open = True, ser_written = [CHR 0x04], ser_reads = 0,
      times_l = [], volts = [], stop_condition = 0\<rparr>"

text \<open>The frame after one pass through the loop body, however the \<open>try\<close> ended.\<close>

definition after_body :: "device \<Rightarrow> frame \<Rightarrow> frame" where
  "after_body dev st =
     (case loop_body dev st of
        Inl (e, st') \<Rightarrow> st'
      | Inr st' \<Rightarrow> st')"

text \<open>The frame after at most \<open>n\<close> passes: the loop as far as it has come after \<open>n\<close>
  tests of its condition.\<close>

fun iterations :: "device \<Rightarrow> nat \<Rightarrow> frame \<Rightarrow> frame" where
  "iterations dev 0 st = st"
| "iterations dev (Suc n) st =
     (if stop_condition st \<le> 1990 then iterations dev n (after_body dev st) else st)"

text \<open>Whether a line parses, and the samples among the first \<open>k\<close> lines of a device, in
  the order of arrival.\<close>

definition accepted :: "rx \<Rightarrow> bool" where
  "accepted r = (case parse_line r of Inl e \<Rightarrow> False | Inr p \<Rightarrow> True)"

definition sample_of :: "rx \<Rightarrow> (pyfloat \<times> pyfloat) option" where
  "sample_of r = (case parse_line r of Inl e \<Rightarrow> None | Inr p \<Rightarrow> Some p)"

definition samples :: "device \<Rightarrow> nat \<Rightarrow> (pyfloat \<times> pyfloat) list" where
  "samples dev k = List.map_filter (\<lambda>i. sample_of (dev i)) [0..<k]"

definition rejected :: "device \<Rightarrow> nat \<Rightarrow> nat" where
  "rejected dev k = length (filter (\<lambda>i. \<not> accepted (dev i)) [0..<k])"

text \<open>The formula of the specification for the voltage at time \<open>t\<close>.\<close>

definition spec_voltage :: "real \<Rightarrow> real \<Rightarrow> real \<Rightarrow> int \<Rightarrow> real" where
  "spec_voltage peak_voltage resistance capacitance t =
     peak_voltage * (1 - exp (- real_of_int t / (resistance * capacitance * 1000)))"

text \<open>The frame with which a call returned, if it did.\<close>

fun returned_frame :: "result option \<Rightarrow> frame option" where
  "returned_frame (Some (Returned st g)) = Some st"
| "returned_frame r = None"

text \<open>Devices for the examples: a device that sends the given lines and is silent
  afterwards (every later \<open>readline\<close> times out with no bytes), and one that sends the
  same line for ever.\<close>

definition then_silent :: "rx list \<Rightarrow> device" where
  "then_silent ls n = (if n < length ls then ls ! n else Rx_text [])"

definition repeating :: "string \<Rightarrow> device" where
  "repeating s n = Rx_text s"

definition five_lines :: "rx list" where
  "five_lines =
     [Rx_text ''12,1.5'', Rx_text ''garbage'', Rx_text ''30,'',
      Rx_text ''abc,def'', Rx_text ''45,2.1'']"

definition one_bad_line_first :: device where
  "one_bad_line_first n = (if n = 0 then Rx_text ''garbage'' else Rx_text ''1,1'')"

definition empty_plot :: gui where
  "empty_plot = \<lparr>plotted = [], x_label = [], y_label = [], grid_on = False, draws = 0\<rparr>"

text \<open>Ports for the examples: one that is there at every attempt, and one that is
  missing at the first attempt only.\<close>

definition always_up :: "nat \<Rightarrow> bool" where
  "always_up k = True"

definition up_after_first :: "nat \<Rightarrow> bool" where
  "up_after_first k = (0 < k)"

definition steady_env :: env where
  "steady_env = \<lparr>port_up = always_up, device = repeating ''1,1''\<rparr>"

definition five_lines_env :: env where
  "five_lines_env = \<lparr>port_up = always_up, device = then_silent five_lines\<rparr>"

definition garbage_env :: env where
  "garbage_env = \<lparr>port_up = always_up, device = repeating ''garbage''\<rparr>"

definition no_port_env :: env where
  "no_port_env = \<lparr>port_up = up_after_first, device = repeating ''1,1''\<rparr>"

definition one_line_env :: env where
  "one_line_env = \<lparr>port_up = always_up, device = then_silent [Rx_text ''1,1'']\<rparr>"

text \<open>What holds of the frame whenever the loop condition is tested.\<close>

definition loop_inv :: "device \<Rightarrow> frame \<Rightarrow> bool" where
  "loop_inv dev st \<longleftrightarrow>
     times_l st = map fst (samples dev (ser_reads st)) \<and>
     volts st = map snd (samples dev (ser_reads st)) \<and>
     stop_condition st = 10 * int (length (samples dev (ser_reads st))) \<and>
     stop_condition st \<le> 2000 \<and>
     ser_is_open st \<and> ser_written st = [CHR 0x04]"

section \<open>Properties\<close>

subsection \<open>The loop body never lets an exception out\<close>

lemma py_float_exc: "py_float s = Inl e \<Longrightarrow> e = ValueError"
  by (auto simp: py_float_def split: option.splits)

lemma unpack2_exc: "unpack2 xs = Inl e \<Longrightarrow> e = ValueError"
  by (cases xs rule: unpack2.cases) auto

lemma decode_utf8_exc: "decode_utf8 r = Inl e \<Longrightarrow> e = UnicodeDecodeError"
  by (cases r) auto

lemma parse_line_exc: "parse_line r = Inl e \<Longrightarrow> is_ValueError e"
  by (auto simp: parse_line_def Let_def split: sum.splits prod.splits
      dest: py_float_exc unpack2_exc decode_utf8_exc)

lemma try_body_exc: "try_body dev st = Inl (e, st') \<Longrightarrow> is_ValueError e"
  by (auto simp: try_body_def Let_def split: sum.splits prod.splits dest: parse_line_exc)

lemma loop_body_total: "loop_body dev st = Inr (after_body dev st)"
  by (auto simp: loop_body_def after_body_def split: sum.splits prod.splits dest: try_body_exc)

lemma after_body_eq:
  "after_body dev st =
     (case sample_of (dev (ser_reads st)) of
        None \<Rightarrow> st\<lparr>ser_reads := ser_reads st + 1\<rparr>
      | Some (t, v) \<Rightarrow> st\<lparr>ser_reads := ser_reads st + 1,
                           times_l := times_l st @ [t],
                           volts := volts st @ [v],
                           stop_condition := stop_condition st + 10\<rparr>)"
  by (auto simp: after_body_def loop_body_def try_body_def sample_of_def Let_def
      split: sum.splits prod.splits dest: parse_line_exc)

lemma accepted_sample_of: "accepted r \<longleftrightarrow> sample_of r \<noteq> None"
  by (simp add: accepted_def sample_of_def split: sum.splits)

subsection \<open>The loop and its passes\<close>

lemma read_loop_iterations:
  "1990 < stop_condition (iterations dev n st) \<Longrightarrow>
   read_loop dev st = Some (Inr (iterations dev n st))"
proof (induction n arbitrary: st)
  case 0
  then show ?case by (simp add: read_loop.simps)
next
  case (Suc n)
  show ?case
  proof (cases "stop_condition st \<le> 1990")
    case True
    with Suc.prems have "1990 < stop_condition (iterations dev n (after_body dev st))" by simp
    then have "read_loop dev (after_body dev st) = Some (Inr (iterations dev n (after_body dev st)))"
      by (rule Suc.IH)
    with True show ?thesis
      by (subst read_loop.simps) (simp add: loop_body_total)
  next
    case False
    then show ?thesis by (subst read_loop.simps) simp
  qed
qed

lemma read_loop_Some:
  assumes "read_loop dev st = Some r"
  shows "\<exists>n. r = Inr (iterations dev n st) \<and> 1990 < stop_condition (iterations dev n st)"
proof (rule read_loop.raw_induct
    [of "\<lambda>dev st r. \<exists>n. r = Inr (iterations dev n st) \<and> 1990 < stop_condition (iterations dev n st)",
      OF _ assms])
  fix loop' :: "device \<Rightarrow> frame \<Rightarrow> ((pyexc \<times> frame) + frame) option"
  fix dev st r
  assume IH: "\<And>dev st r. loop' dev st = Some r \<Longrightarrow>
      \<exists>n. r = Inr (iterations dev n st) \<and> 1990 < stop_condition (iterations dev n st)"
  assume eq: "(if stop_condition st \<le> 1990
        then case loop_body dev st of Inl ex \<Rightarrow> Some (Inl ex) | Inr st' \<Rightarrow> loop' dev st'
        else Some (Inr st)) = Some r"
  show "\<exists>n. r = Inr (iterations dev n st) \<and> 1990 < stop_condition (iterations dev n st)"
  proof (cases "stop_condition st \<le> 1990")
    case True
    with eq have "loop' dev (after_body dev st) = Some r"
      by (simp add: loop_body_total)
    then obtain n where "r = Inr (iterations dev n (after_body dev st))"
      "1990 < stop_condition (iterations dev n (after_body dev st))"
      using IH by blast
    with True have "r = Inr (iterations dev (Suc n) st) \<and> 1990 < stop_condition (iterations dev (Suc n) st)"
      by simp
    then show ?thesis by blast
  next
    case False
    with eq have "r = Inr (iterations dev 0 st) \<and> 1990 < stop_condition (iterations dev 0 st)"
      by auto
    then show ?thesis by blast
  qed
qed

lemma samples_Suc:
  "samples dev (Suc k) =
     samples dev k @ (case sample_of (dev k) of None \<Rightarrow> [] | Some p \<Rightarrow> [p])"
  by (simp add: samples_def List.map_filter_def split: option.splits)

lemma samples_0: "samples dev 0 = []"
  by (simp add: samples_def List.map_filter_def)

lemma rejected_Suc:
  "rejected dev (Suc k) = rejected dev k + (if accepted (dev k) then 0 else 1)"
  by (simp add: rejected_def)

lemma samples_rejected: "length (samples dev k) + rejected dev k = k"
  by (induction k) (auto simp: samples_0 rejected_def samples_Suc accepted_sample_of split: option.splits)

lemma loop_inv_entry: "loop_inv dev loop_entry"
  by (simp add: loop_inv_def loop_entry_def samples_0)

lemma loop_inv_after_body:
  "loop_inv dev st \<Longrightarrow> stop_condition st \<le> 1990 \<Longrightarrow> loop_inv dev (after_body dev st)"
  by (auto simp: loop_inv_def after_body_eq samples_Suc split: option.splits)

lemma loop_inv_iterations: "loop_inv dev st \<Longrightarrow> loop_inv dev (iterations dev n st)"
  by (induction n arbitrary: st) (auto intro: loop_inv_after_body)

lemma iterations_reads:
  "stop_condition (iterations dev n st) \<le> 1990 \<Longrightarrow>
   ser_reads (iterations dev n st) = ser_reads st + n"
proof (induction n arbitrary: st)
  case 0
  then show ?case by simp
next
  case (Suc n)
  then show ?case
    by (cases "stop_condition st \<le> 1990") (auto simp: after_body_eq split: option.splits)
qed

lemma iterations_stop_le: "stop_condition st \<le> 2000 \<Longrightarrow> stop_condition (iterations dev n st) \<le> 2000"
proof (induction n arbitrary: st)
  case 0
  then show ?case by simp
next
  case (Suc n)
  then show ?case
    by (cases "stop_condition st \<le> 1990") (auto simp: after_body_eq split: option.splits)
qed

text \<open>A frame that leaves the loop from \<open>loop_entry\<close> holds exactly 200 samples.\<close>

lemma loop_exit_frame:
  assumes "read_loop dev loop_entry = Some r"
  shows "\<exists>st. r = Inr st \<and> loop_inv dev st \<and> stop_condition st = 2000 \<and>
              length (samples dev (ser_reads st)) = 200"
proof -
  from read_loop_Some [OF assms] obtain n where
    r: "r = Inr (iterations dev n loop_entry)" and
    gt: "1990 < stop_condition (iterations dev n loop_entry)"
    by blast
  let ?st = "iterations dev n loop_entry"
  have inv: "loop_inv dev ?st"
    by (rule loop_inv_iterations) (rule loop_inv_entry)
  then have eq: "stop_condition ?st = 10 * int (length (samples dev (ser_reads ?st)))"
    and le: "stop_condition ?st \<le> 2000"
    by (simp_all add: loop_inv_def)
  from gt le eq have "length (samples dev (ser_reads ?st)) = 200" by linarith
  with eq r inv show ?thesis by simp
qed

text \<open>The loop ends exactly when some prefix of the device's lines holds 200 samples.\<close>

lemma loop_returns_iff:
  "(\<exists>r. read_loop dev loop_entry = Some r) \<longleftrightarrow> (\<exists>k. 200 \<le> length (samples dev k))"
proof
  assume "\<exists>r. read_loop dev loop_entry = Some r"
  then obtain r where "read_loop dev loop_entry = Some r" by blast
  from loop_exit_frame [OF this] obtain st :: frame
    where "length (samples dev (ser_reads st)) = 200"
    by auto
  then have "200 \<le> length (samples dev (ser_reads st))" by simp
  then show "\<exists>k. 200 \<le> length (samples dev k)" by blast
next
  assume "\<exists>k. 200 \<le> length (samples dev k)"
  then obtain k where k: "200 \<le> length (samples dev k)" by blast
  let ?st = "iterations dev k loop_entry"
  have inv: "loop_inv dev ?st"
    by (rule loop_inv_iterations) (rule loop_inv_entry)
  have "1990 < stop_condition ?st"
  proof (rule ccontr)
    assume "\<not> 1990 < stop_condition ?st"
    then have le: "stop_condition ?st \<le> 1990" by simp
    then have "ser_reads ?st = ser_reads loop_entry + k" by (rule iterations_reads)
    then have "ser_reads ?st = k" by (simp add: loop_entry_def)
    with inv have "stop_condition ?st = 10 * int (length (samples dev k))"
      by (simp add: loop_inv_def)
    with k le show False by linarith
  qed
  then have "read_loop dev loop_entry = Some (Inr ?st)" by (rule read_loop_iterations)
  then show "\<exists>r. read_loop dev loop_entry = Some r" by blast
qed

lemma loop_diverges_iff:
  "read_loop dev loop_entry = None \<longleftrightarrow> (\<forall>k. length (samples dev k) < 200)"
proof -
  have "read_loop dev loop_entry = None \<longleftrightarrow> \<not> (\<exists>r. read_loop dev loop_entry = Some r)"
    by auto
  also have "\<dots> \<longleftrightarrow> \<not> (\<exists>k. 200 \<le> length (samples dev k))"
    by (simp only: loop_returns_iff)
  also have "\<dots> \<longleftrightarrow> (\<forall>k. length (samples dev k) < 200)"
    by (auto simp: not_le)
  finally show ?thesis .
qed

subsection \<open>The theoretical curve\<close>

lemma tau_value: "R * C * 1000 = 298.32"
  by (simp add: R_def C_def)

lemma tau_pos: "0 < R * C * 1000"
  unfolding tau_value by simp

lemma VMAX_pos: "0 < VMAX"
  by (simp add: VMAX_def)

lemma math_exp_nonpos: "x \<le> 0 \<Longrightarrow> math_exp x = Inr (exp x)"
proof -
  assume "x \<le> 0"
  then have "exp x \<le> 1" by simp
  moreover have "(1::real) < 2 ^ 1024" by simp
  ultimately have "\<not> 2 ^ 1024 \<le> exp x" by linarith
  then show ?thesis by (simp add: math_exp_def)
qed

lemma theory_volt_formula: "0 \<le> t \<Longrightarrow> theory_volt t = Inr (spec_voltage VMAX R C t)"
proof -
  assume t: "0 \<le> t"
  have nz: "R * C * 1000 \<noteq> 0" unfolding tau_value by simp
  have "- real_of_int t / (R * C * 1000) \<le> 0"
    using t tau_pos by (simp add: divide_nonpos_pos)
  then have "math_exp (- real_of_int t / (R * C * 1000)) =
      Inr (exp (- real_of_int t / (R * C * 1000)))"
    by (rule math_exp_nonpos)
  then show ?thesis
    using nz by (simp add: theory_volt_def py_truediv_def spec_voltage_def del: mult_eq_0_iff)
qed

lemma comprehension_total:
  "(\<And>x. x \<in> set xs \<Longrightarrow> f x = Inr (g x)) \<Longrightarrow> comprehension f xs = Inr (map g xs)"
  by (induction xs) simp_all

lemma theory_volts_formula: "theory_volts = Inr (map (spec_voltage VMAX R C) theory_times)"
  unfolding theory_volts_def
  by (rule comprehension_total) (auto simp: theory_times_def intro: theory_volt_formula)

lemma length_theory_times: "length theory_times = 2000"
  by (simp add: theory_times_def)

lemma nth_theory_times: "t < 2000 \<Longrightarrow> theory_times ! t = int t"
  by (simp add: theory_times_def)

lemma spec_voltage_mono:
  "i < j \<Longrightarrow> spec_voltage VMAX R C i < spec_voltage VMAX R C j"
proof -
  assume "i < j"
  then have "- real_of_int j / (R * C * 1000) < - real_of_int i / (R * C * 1000)"
    using tau_pos by (simp add: divide_strict_right_mono)
  then have "exp (- real_of_int j / (R * C * 1000)) < exp (- real_of_int i / (R * C * 1000))"
    by simp
  then show ?thesis
    using VMAX_pos by (simp add: spec_voltage_def)
qed

lemma spec_voltage_below: "spec_voltage VMAX R C t < VMAX"
proof -
  have "0 < exp (- real_of_int t / (R * C * 1000))" by simp
  then have "1 - exp (- real_of_int t / (R * C * 1000)) < 1" by linarith
  then have "VMAX * (1 - exp (- real_of_int t / (R * C * 1000))) < VMAX * 1"
    using VMAX_pos by (rule mult_strict_left_mono)
  then show ?thesis by (simp add: spec_voltage_def)
qed

lemma spec_voltage_0: "spec_voltage VMAX R C 0 = 0"
  by (simp add: spec_voltage_def)

subsection \<open>The whole call\<close>

lemma plot_example_eq:
  "plot_example e plot xlabel ylabel =
     (if \<not> port_up e 0 then Some (Raised SerialException None plot)
      else (case read_loop (device e) loop_entry of
              None \<Rightarrow> None
            | Some (Inl (ex, st)) \<Rightarrow> Some (Raised ex (Some st) plot)
            | Some (Inr st) \<Rightarrow>
                Some (Returned st
                  (plot\<lparr>plotted := plotted plot @
                            [Line_series theory_times (map (spec_voltage VMAX R C) theory_times),
                             Marker_series (times_l st) (volts st)],
                        x_label := xlabel, y_label := ylabel, grid_on := True,
                        draws := draws plot + 1\<rparr>))))"
  by (simp add: plot_example_def loop_entry_def theory_volts_formula Let_def
      split: option.splits sum.splits prod.splits)

lemma plot_example_Returned:
  assumes "plot_example e plot xlabel ylabel = Some (Returned st g)"
  shows "port_up e 0 \<and> read_loop (device e) loop_entry = Some (Inr st) \<and>
         g = plot\<lparr>plotted := plotted plot @
                      [Line_series theory_times (map (spec_voltage VMAX R C) theory_times),
                       Marker_series (times_l st) (volts st)],
                  x_label := xlabel, y_label := ylabel, grid_on := True,
                  draws := draws plot + 1\<rparr>"
  using assms
  by (auto simp: plot_example_eq split: if_splits option.splits sum.splits prod.splits)

lemma plot_example_Raised:
  assumes "plot_example e plot xlabel ylabel = Some (Raised ex fr g)"
  shows "\<not> port_up e 0 \<and> ex = SerialException \<and> fr = None \<and> g = plot"
proof (cases "port_up e 0")
  case False
  with assms show ?thesis by (simp add: plot_example_eq)
next
  case True
  show ?thesis
  proof (cases "read_loop (device e) loop_entry")
    case None
    with True assms show ?thesis by (simp add: plot_example_eq)
  next
    case (Some r)
    from loop_exit_frame [OF Some] obtain st where "r = Inr st" by blast
    with Some True assms show ?thesis by (simp add: plot_example_eq)
  qed
qed

subsection \<open>The example devices\<close>

lemma accepted_1_1: "accepted (Rx_text ''1,1'')"
  by code_simp

lemma rejected_garbage: "\<not> accepted (Rx_text ''garbage'')"
  by code_simp

lemma rejected_silence: "\<not> accepted (Rx_text [])"
  by code_simp

lemma rejected_sample_of: "\<not> accepted r \<longleftrightarrow> sample_of r = None"
  by (simp add: accepted_def sample_of_def split: sum.splits)

lemma samples_all_accepted:
  "(\<And>i. accepted (dev i)) \<Longrightarrow> length (samples dev k) = k"
proof -
  assume a: "\<And>i. accepted (dev i)"
  have "rejected dev k = 0"
    by (simp add: rejected_def a)
  with samples_rejected [of dev k] show ?thesis by simp
qed

lemma samples_none_accepted:
  "(\<And>i. \<not> accepted (dev i)) \<Longrightarrow> samples dev k = []"
proof -
  assume "\<And>i. \<not> accepted (dev i)"
  then have "\<And>i. sample_of (dev i) = None"
    by (simp only: rejected_sample_of)
  then show ?thesis
    by (induction k) (simp_all add: samples_0 samples_Suc)
qed

text \<open>When every line from the current one on parses, the remaining passes are as many
  as the counter is short of 2000, in tens.\<close>

lemma iterations_accepting:
  "(\<And>i. ser_reads st \<le> i \<Longrightarrow> accepted (dev i)) \<Longrightarrow>
   stop_condition st + 10 * int n = 2000 \<Longrightarrow>
   stop_condition (iterations dev n st) = 2000 \<and>
   ser_reads (iterations dev n st) = ser_reads st + n"
proof (induction n arbitrary: st)
  case 0
  then show ?case by simp
next
  case (Suc n)
  from Suc.prems(2) have le: "stop_condition st \<le> 1990" by simp
  have acc: "accepted (dev (ser_reads st))" using Suc.prems(1) by simp
  then obtain t v where tv: "sample_of (dev (ser_reads st)) = Some (t, v)"
    by (auto simp: accepted_sample_of)
  let ?st' = "after_body dev st"
  have r: "ser_reads ?st' = ser_reads st + 1" and s: "stop_condition ?st' = stop_condition st + 10"
    by (simp_all add: after_body_eq tv)
  have "\<And>i. ser_reads ?st' \<le> i \<Longrightarrow> accepted (dev i)"
    using Suc.prems(1) r by simp
  moreover have "stop_condition ?st' + 10 * int n = 2000"
    using Suc.prems(2) s by simp
  ultimately have "stop_condition (iterations dev n ?st') = 2000 \<and>
      ser_reads (iterations dev n ?st') = ser_reads ?st' + n"
    by (rule Suc.IH)
  with le r show ?case by simp
qed

lemma steady_loop:
  "\<exists>st. read_loop (repeating ''1,1'') loop_entry = Some (Inr st) \<and> ser_reads st = 200"
proof -
  let ?dev = "repeating ''1,1''"
  have "stop_condition (iterations ?dev 200 loop_entry) = 2000 \<and>
      ser_reads (iterations ?dev 200 loop_entry) = ser_reads loop_entry + 200"
    by (rule iterations_accepting) (simp_all add: repeating_def accepted_1_1 loop_entry_def)
  then have s: "stop_condition (iterations ?dev 200 loop_entry) = 2000"
    and r: "ser_reads (iterations ?dev 200 loop_entry) = 200"
    by (simp_all add: loop_entry_def)
  from s have "1990 < stop_condition (iterations ?dev 200 loop_entry)" by simp
  then have "read_loop ?dev loop_entry = Some (Inr (iterations ?dev 200 loop_entry))"
    by (rule read_loop_iterations)
  with r show ?thesis by blast
qed

lemma bad_first_loop:
  "\<exists>st. read_loop one_bad_line_first loop_entry = Some (Inr st) \<and> ser_reads st = 201"
proof -
  let ?dev = "one_bad_line_first"
  let ?st1 = "loop_entry\<lparr>ser_reads := 1\<rparr>"
  have "sample_of (?dev 0) = None"
    using rejected_garbage by (simp add: one_bad_line_first_def rejected_sample_of)
  then have st1: "after_body ?dev loop_entry = ?st1"
    by (simp add: after_body_eq loop_entry_def)
  have "stop_condition (iterations ?dev 200 ?st1) = 2000 \<and>
      ser_reads (iterations ?dev 200 ?st1) = ser_reads ?st1 + 200"
    by (rule iterations_accepting)
      (simp_all add: one_bad_line_first_def accepted_1_1 loop_entry_def)
  moreover have "iterations ?dev 201 loop_entry = iterations ?dev 200 ?st1"
  proof -
    have "stop_condition loop_entry \<le> 1990" by (simp add: loop_entry_def)
    then have "iterations ?dev (Suc 200) loop_entry = iterations ?dev 200 (after_body ?dev loop_entry)"
      by (simp only: iterations.simps if_True)
    then show ?thesis by (simp only: st1) simp
  qed
  ultimately have s: "stop_condition (iterations ?dev 201 loop_entry) = 2000"
    and r: "ser_reads (iterations ?dev 201 loop_entry) = 201"
    by simp_all
  from s have "1990 < stop_condition (iterations ?dev 201 loop_entry)" by simp
  then have "read_loop ?dev loop_entry = Some (Inr (iterations ?dev 201 loop_entry))"
    by (rule read_loop_iterations)
  with r show ?thesis by blast
qed

section \<open>The claims\<close>

subsection \<open>The signal model\<close>

text \<open>
  C3. For every integer \<open>t\<close> from 0 to 1999 the theoretical series holds, at index
  \<open>t\<close>, the time \<open>t\<close> and the voltage
  \<open>VMAX * (1 - exp (-t / (R * C * 1000)))\<close>. The computation has no failing case: the
  division and \<open>math.exp\<close> never raise for these constants, so the comprehension yields
  all 2000 values. (Float arithmetic is read as real arithmetic.)
\<close>

theorem signal_model_formula:
  "t < 2000 \<Longrightarrow>
   theory_times ! t = int t \<and>
   (\<exists>vs. theory_volts = Inr vs \<and> length vs = 2000 \<and>
         vs ! t = VMAX * (1 - exp (- real t / (R * C * 1000))))"
proof -
  assume t: "t < 2000"
  let ?vs = "map (spec_voltage VMAX R C) theory_times"
  have "?vs ! t = spec_voltage VMAX R C (int t)"
    using t by (simp add: theory_times_def)
  then have "?vs ! t = VMAX * (1 - exp (- real t / (R * C * 1000)))"
    by (simp add: spec_voltage_def)
  moreover have "length ?vs = 2000" by (simp add: theory_times_def)
  ultimately show ?thesis
    using t theory_volts_formula nth_theory_times by blast
qed

theorem signal_model_formula_witness:
  "(7::nat) < 2000 \<and> theory_times ! 7 = 7 \<and>
   (\<exists>vs. theory_volts = Inr vs \<and> length vs = 2000 \<and>
         vs ! 7 = VMAX * (1 - exp (- 7 / (R * C * 1000))))"
  using signal_model_formula [of 7] by simp

lemma silence_no_sample: "sample_of (Rx_text []) = None"
  using rejected_silence by (simp only: rejected_sample_of)

text \<open>A device that falls silent after its lines never yields more samples than it
  sent lines.\<close>

lemma then_silent_samples_le:
  "length (samples (then_silent ls) k) \<le> min k (length ls)"
proof (induction k)
  case 0
  then show ?case by (simp add: samples_0)
next
  case (Suc k)
  show ?case
  proof (cases "k < length ls")
    case True
    have "length (samples (then_silent ls) (Suc k)) \<le> length (samples (then_silent ls) k) + 1"
      by (simp add: samples_Suc split: option.splits)
    with Suc True show ?thesis by simp
  next
    case False
    then have "sample_of (then_silent ls k) = None"
      by (simp add: then_silent_def silence_no_sample)
    then have "samples (then_silent ls) (Suc k) = samples (then_silent ls) k"
      by (simp add: samples_Suc)
    with Suc False show ?thesis by simp
  qed
qed

text \<open>
  C7, as the code has it. Every call of \<open>plot_example\<close> that returns has plotted a
  theoretical series of 2000 times and 2000 voltages. But the length of the observed
  series is not free: a call returns exactly when the port opens and the device
  delivers 200 well-formed lines, and then \<open>times\<close> and \<open>volts\<close> hold exactly 200 values;
  the acquisition never ends early. A call that cannot open the port ends with the plot
  unchanged, and a call whose device delivers fewer than 200 well-formed lines never
  returns; neither computes a theoretical series.
\<close>

theorem theoretical_series_length:
  "(plot_example e plot xlabel ylabel = Some (Returned st g) \<longrightarrow>
      (\<exists>vs. plotted g = plotted plot @
               [Line_series theory_times vs, Marker_series (times_l st) (volts st)] \<and>
            theory_volts = Inr vs \<and>
            length theory_times = 2000 \<and> length vs = 2000 \<and>
            length (times_l st) = 200 \<and> length (volts st) = 200)) \<and>
   ((\<exists>st' g'. plot_example e plot xlabel ylabel = Some (Returned st' g')) \<longleftrightarrow>
      port_up e 0 \<and> (\<exists>k. 200 \<le> length (samples (device e) k))) \<and>
   (plot_example e plot xlabel ylabel = Some (Raised ex fr g'') \<longrightarrow> g'' = plot)"
proof (intro conjI)
  show "plot_example e plot xlabel ylabel = Some (Returned st g) \<longrightarrow>
      (\<exists>vs. plotted g = plotted plot @
               [Line_series theory_times vs, Marker_series (times_l st) (volts st)] \<and>
            theory_volts = Inr vs \<and>
            length theory_times = 2000 \<and> length vs = 2000 \<and>
            length (times_l st) = 200 \<and> length (volts st) = 200)"
  proof
    assume run: "plot_example e plot xlabel ylabel = Some (Returned st g)"
    from plot_example_Returned [OF run]
    have loop: "read_loop (device e) loop_entry = Some (Inr st)"
      and g: "plotted g = plotted plot @
        [Line_series theory_times (map (spec_voltage VMAX R C) theory_times),
         Marker_series (times_l st) (volts st)]"
      by simp_all
    from loop_exit_frame [OF loop]
    have "loop_inv (device e) st" "length (samples (device e) (ser_reads st)) = 200"
      by simp_all
    then have "length (times_l st) = 200" "length (volts st) = 200"
      by (simp_all add: loop_inv_def)
    moreover have "length (map (spec_voltage VMAX R C) theory_times) = 2000"
      by (simp add: length_theory_times)
    ultimately show "\<exists>vs. plotted g = plotted plot @
               [Line_series theory_times vs, Marker_series (times_l st) (volts st)] \<and>
            theory_volts = Inr vs \<and>
            length theory_times = 2000 \<and> length vs = 2000 \<and>
            length (times_l st) = 200 \<and> length (volts st) = 200"
      using g theory_volts_formula length_theory_times by blast
  qed
next
  show "(\<exists>st' g'. plot_example e plot xlabel ylabel = Some (Returned st' g')) \<longleftrightarrow>
      port_up e 0 \<and> (\<exists>k. 200 \<le> length (samples (device e) k))"
  proof
    assume "\<exists>st' g'. plot_example e plot xlabel ylabel = Some (Returned st' g')"
    then obtain st' g' where "plot_example e plot xlabel ylabel = Some (Returned st' g')"
      by blast
    from plot_example_Returned [OF this]
    have up: "port_up e 0" and "read_loop (device e) loop_entry = Some (Inr st')"
      by simp_all
    then have "\<exists>r. read_loop (device e) loop_entry = Some r" by blast
    then have "\<exists>k. 200 \<le> length (samples (device e) k)"
      by (simp only: loop_returns_iff)
    with up show "port_up e 0 \<and> (\<exists>k. 200 \<le> length (samples (device e) k))" by blast
  next
    assume a: "port_up e 0 \<and> (\<exists>k. 200 \<le> length (samples (device e) k))"
    then have "\<exists>r. read_loop (device e) loop_entry = Some r"
      by (simp only: loop_returns_iff)
    then obtain r where r: "read_loop (device e) loop_entry = Some r" by blast
    from loop_exit_frame [OF r] obtain s :: frame where "r = Inr s" by blast
    with r a show "\<exists>st' g'. plot_example e plot xlabel ylabel = Some (Returned st' g')"
      by (simp add: plot_example_eq)
  qed
next
  show "plot_example e plot xlabel ylabel = Some (Raised ex fr g'') \<longrightarrow> g'' = plot"
  proof
    assume "plot_example e plot xlabel ylabel = Some (Raised ex fr g'')"
    from plot_example_Raised [OF this] show "g'' = plot" by simp
  qed
qed

theorem theoretical_series_length_witness:
  "\<exists>st g vs. plot_example steady_env empty_plot ''Time (ms)'' ''Voltage (V)'' = Some (Returned st g) \<and>
     plotted g = [Line_series theory_times vs, Marker_series (times_l st) (volts st)] \<and>
     length theory_times = 2000 \<and> length vs = 2000 \<and>
     length (times_l st) = 200 \<and> length (volts st) = 200"
proof -
  from steady_loop obtain st :: frame
    where "read_loop (repeating ''1,1'') loop_entry = Some (Inr st)"
    by blast
  then obtain g where run:
    "plot_example steady_env empty_plot ''Time (ms)'' ''Voltage (V)'' = Some (Returned st g)"
    by (simp add: plot_example_eq steady_env_def always_up_def)
  from theoretical_series_length
    [of steady_env empty_plot "''Time (ms)''" "''Voltage (V)''" st g] run
  show ?thesis
    by (auto simp: empty_plot_def)
qed

text \<open>The claim as the specification states it fails: on a device that sends one good
  line and then falls silent the port opens and the observed series comes to hold one
  sample, but the call never returns, so this run has no theoretical series at all.\<close>

theorem theoretical_series_every_run_counterexample:
  "port_up one_line_env 0 \<and>
   times_l (iterations (device one_line_env) 1 loop_entry) = [Num 1] \<and>
   volts (iterations (device one_line_env) 1 loop_entry) = [Num 1] \<and>
   plot_example one_line_env empty_plot ''Time (ms)'' ''Voltage (V)'' = None"
proof -
  let ?dev = "then_silent [Rx_text ''1,1'']"
  have up: "port_up one_line_env 0"
    by (simp add: one_line_env_def always_up_def)
  have "parse_line (Rx_text ''1,1'') = Inr (Num 1, Num 1)" by code_simp
  then have "sample_of (?dev 0) = Some (Num 1, Num 1)"
    by (simp add: then_silent_def sample_of_def)
  then have one: "after_body ?dev loop_entry =
      loop_entry\<lparr>ser_reads := 1, times_l := [Num 1], volts := [Num 1], stop_condition := 10\<rparr>"
    by (simp add: after_body_eq loop_entry_def)
  have "iterations ?dev (Suc 0) loop_entry = after_body ?dev loop_entry"
    by (simp add: loop_entry_def)
  with one have it: "times_l (iterations ?dev 1 loop_entry) = [Num 1]"
    "volts (iterations ?dev 1 loop_entry) = [Num 1]"
    by simp_all
  have "\<forall>k. length (samples ?dev k) < 200"
  proof
    fix k
    have "length (samples ?dev k) \<le> min k (length [Rx_text ''1,1''])"
      by (rule then_silent_samples_le)
    then show "length (samples ?dev k) < 200" by simp
  qed
  then have "read_loop ?dev loop_entry = None"
    using loop_diverges_iff by blast
  then have "plot_example one_line_env empty_plot ''Time (ms)'' ''Voltage (V)'' = None"
    by (simp add: plot_example_eq one_line_env_def always_up_def)
  with up it show ?thesis by (simp add: one_line_env_def)
qed

text \<open>
  C8. With the constants of the program (3.094, 90.4e3, 3.3e-6): the series starts
  with time 0 and voltage 0, the voltages increase strictly along the whole series, and
  the last voltage, at index 1999, is strictly below 3.094. (Float arithmetic is read
  as real arithmetic.)
\<close>

theorem theoretical_series_shape:
  "\<exists>vs. theory_volts = Inr vs \<and>
        theory_times ! 0 = 0 \<and> vs ! 0 = 0 \<and>
        (\<forall>i j. i < j \<and> j < 2000 \<longrightarrow> vs ! i < vs ! j) \<and>
        vs ! 1999 < 3.094"
proof -
  let ?vs = "map (spec_voltage VMAX R C) theory_times"
  have nth: "\<And>k. k < 2000 \<Longrightarrow> ?vs ! k = spec_voltage VMAX R C (int k)"
    by (simp add: theory_times_def)
  have "theory_times ! 0 = 0" by (simp add: nth_theory_times)
  moreover have "?vs ! 0 = 0" by (simp add: nth spec_voltage_0)
  moreover have "\<forall>i j. i < j \<and> j < 2000 \<longrightarrow> ?vs ! i < ?vs ! j"
  proof (intro allI impI)
    fix i j :: nat
    assume ij: "i < j \<and> j < 2000"
    then have "spec_voltage VMAX R C (int i) < spec_voltage VMAX R C (int j)"
      by (intro spec_voltage_mono) simp
    with ij show "?vs ! i < ?vs ! j" by (simp add: nth)
  qed
  moreover have "?vs ! 1999 < 3.094"
  proof -
    have "?vs ! 1999 = spec_voltage VMAX R C (int 1999)" by (rule nth) simp
    also have "\<dots> < VMAX" by (rule spec_voltage_below)
    also have "VMAX = 3.094" by (simp add: VMAX_def)
    finally show ?thesis .
  qed
  ultimately show ?thesis
    using theory_volts_formula by blast
qed

theorem theoretical_series_shape_witness:
  "\<exists>vs. theory_volts = Inr vs \<and> vs ! 0 < vs ! 1999"
proof -
  from theoretical_series_shape obtain vs where
    "theory_volts = Inr vs" and "\<forall>i j. i < j \<and> j < 2000 \<longrightarrow> vs ! i < vs ! j"
    by blast
  then have "theory_volts = Inr vs \<and> vs ! 0 < vs ! 1999" by simp
  then show ?thesis by blast
qed

subsection \<open>Margins of the theoretical curve\<close>

text \<open>The two order properties of the curve hold with room to spare: neighbouring
  voltages differ by more than four millionths of a volt and the last one stays more
  than a thousandth below 3.094, both far above the spacing of binary64 numbers of
  this size.\<close>

lemma exp_minus_7_lower: "1 / 2187 \<le> exp (- 7 :: real)"
proof -
  have "exp (of_nat 7 * (1::real)) = exp 1 ^ 7" by (rule exp_of_nat_mult)
  then have "exp (7::real) = exp 1 ^ 7" by simp
  also have "\<dots> \<le> 3 ^ 7" by (rule power_mono) (simp_all add: exp_le)
  finally have "exp (7::real) \<le> 2187" by simp
  moreover have "0 < exp (7::real)" by simp
  ultimately have "1 / 2187 \<le> 1 / exp (7::real)"
    by (simp add: frac_le)
  then show ?thesis by (simp add: exp_minus inverse_eq_divide)
qed

lemma exp_tail_lower:
  assumes "0 \<le> t" "t \<le> 2000"
  shows "1 / 2187 \<le> exp (- real_of_int t / (R * C * 1000))"
proof -
  have "real_of_int t / 298.32 \<le> 7" using assms by simp
  then have "- 7 \<le> - real_of_int t / (R * C * 1000)" by (simp add: tau_value)
  then have "exp (- 7 :: real) \<le> exp (- real_of_int t / (R * C * 1000))" by simp
  with exp_minus_7_lower show ?thesis by linarith
qed

lemma spec_voltage_step_margin:
  assumes "0 \<le> t" "t < 1999"
  shows "spec_voltage VMAX R C t + 4 / 10 ^ 6 \<le> spec_voltage VMAX R C (t + 1)"
proof -
  let ?tau = "R * C * 1000"
  let ?a = "exp (- real_of_int (t + 1) / ?tau)"
  let ?b = "exp (1 / ?tau)"
  have split: "- real_of_int t / ?tau = - real_of_int (t + 1) / ?tau + 1 / ?tau"
    by (simp add: add_divide_distrib [symmetric])
  have ab: "exp (- real_of_int t / ?tau) = ?a * ?b"
    by (subst split) (rule exp_add)
  have a: "1 / 2187 \<le> ?a" using assms by (intro exp_tail_lower) simp_all
  have "1 + 1 / ?tau \<le> ?b" by (rule exp_ge_add_one_self)
  then have b: "1 / 298.32 \<le> ?b - 1" by (simp add: tau_value)
  have "(1 / 2187) * (1 / 298.32) \<le> ?a * (?b - 1)"
    using a b by (intro mult_mono) simp_all
  then have "VMAX * ((1 / 2187) * (1 / 298.32)) \<le> VMAX * (?a * (?b - 1))"
    using VMAX_pos by (intro mult_left_mono) simp_all
  moreover have "(4::real) / 10 ^ 6 \<le> VMAX * ((1 / 2187) * (1 / 298.32))"
    by (simp add: VMAX_def)
  moreover have "spec_voltage VMAX R C (t + 1) - spec_voltage VMAX R C t = VMAX * (?a * (?b - 1))"
    unfolding spec_voltage_def ab by (simp add: algebra_simps)
  ultimately show ?thesis by linarith
qed

lemma spec_voltage_final_margin: "spec_voltage VMAX R C 1999 + 1 / 1000 \<le> 3.094"
proof -
  have "1 / 2187 \<le> exp (- real_of_int 1999 / (R * C * 1000))"
    by (rule exp_tail_lower) simp_all
  then have "VMAX * (1 / 2187) \<le> VMAX * exp (- real_of_int 1999 / (R * C * 1000))"
    using VMAX_pos by (intro mult_left_mono) simp_all
  moreover have "(1::real) / 1000 \<le> VMAX * (1 / 2187)" by (simp add: VMAX_def)
  moreover have "spec_voltage VMAX R C 1999 =
      VMAX - VMAX * exp (- real_of_int 1999 / (R * C * 1000))"
    by (simp add: spec_voltage_def algebra_simps)
  moreover have "VMAX = 3.094" by (simp add: VMAX_def)
  ultimately show ?thesis by linarith
qed

lemma theoretical_series_margins:
  "\<exists>vs. theory_volts = Inr vs \<and>
        (\<forall>i<1999. vs ! i + 4 / 10 ^ 6 \<le> vs ! (i + 1)) \<and>
        vs ! 1999 + 1 / 1000 \<le> 3.094"
proof -
  let ?vs = "map (spec_voltage VMAX R C) theory_times"
  have nth: "\<And>k. k < 2000 \<Longrightarrow> ?vs ! k = spec_voltage VMAX R C (int k)"
    by (simp add: theory_times_def)
  have "\<forall>i<1999. ?vs ! i + 4 / 10 ^ 6 \<le> ?vs ! (i + 1)"
  proof (intro allI impI)
    fix i :: nat
    assume i: "i < 1999"
    have "spec_voltage VMAX R C (int i) + 4 / 10 ^ 6 \<le> spec_voltage VMAX R C (int i + 1)"
      using i by (intro spec_voltage_step_margin) simp_all
    moreover have "?vs ! i = spec_voltage VMAX R C (int i)" using i by (intro nth) simp
    moreover have "?vs ! (i + 1) = spec_voltage VMAX R C (int i + 1)"
      using i nth [of "i + 1"] by (simp add: add.commute)
    ultimately show "?vs ! i + 4 / 10 ^ 6 \<le> ?vs ! (i + 1)" by simp
  qed
  moreover have "?vs ! 1999 + 1 / 1000 \<le> 3.094"
    using spec_voltage_final_margin nth [of 1999] by simp
  ultimately show ?thesis
    using theory_volts_formula by blast
qed

subsection \<open>Opening the port\<close>

text \<open>
  C5. If the port cannot be opened, \<open>plot_example\<close> ends at once with the exception of
  \<open>serial.Serial\<close>: it is not caught, no second attempt is made (whether a later
  attempt would succeed plays no part), no frame and no observed series come to exist,
  and the plot is as it was.
\<close>

theorem port_failure_propagates:
  "\<not> port_up e 0 \<Longrightarrow>
   plot_example e plot xlabel ylabel = Some (Raised SerialException None plot)"
  by (simp add: plot_example_def)

theorem port_failure_propagates_witness:
  "\<not> port_up no_port_env 0 \<and> port_up no_port_env 1 \<and>
   plot_example no_port_env empty_plot ''Time (ms)'' ''Voltage (V)'' =
     Some (Raised SerialException None empty_plot)"
proof -
  have h: "\<not> port_up no_port_env 0" by (simp add: no_port_env_def up_after_first_def)
  have "port_up no_port_env 1" by (simp add: no_port_env_def up_after_first_def)
  with h port_failure_propagates [OF h] show ?thesis by simp
qed

subsection \<open>The serial connection\<close>

text \<open>
  C2, as the code has it. \<open>plot_example\<close> never closes the connection: it contains no
  \<open>close\<close>, no \<open>with\<close> and no \<open>finally\<close>. The connection opened at line 47 is open at
  every test of the loop condition and is still open when the call returns.
\<close>

theorem connection_left_open:
  "ser_is_open (iterations (device e) n loop_entry) \<and>
   (plot_example e plot xlabel ylabel = Some (Returned st g) \<longrightarrow> ser_is_open st)"
proof
  have "loop_inv (device e) (iterations (device e) n loop_entry)"
    by (rule loop_inv_iterations) (rule loop_inv_entry)
  then show "ser_is_open (iterations (device e) n loop_entry)"
    by (simp add: loop_inv_def)
next
  show "plot_example e plot xlabel ylabel = Some (Returned st g) \<longrightarrow> ser_is_open st"
  proof
    assume "plot_example e plot xlabel ylabel = Some (Returned st g)"
    from plot_example_Returned [OF this]
    have "read_loop (device e) loop_entry = Some (Inr st)" by simp
    from loop_exit_frame [OF this] show "ser_is_open st"
      by (simp add: loop_inv_def)
  qed
qed

theorem connection_left_open_witness:
  "\<exists>st g. plot_example steady_env empty_plot ''Time (ms)'' ''Voltage (V)'' = Some (Returned st g) \<and>
     ser_is_open st"
proof -
  from steady_loop obtain st :: frame
    where "read_loop (repeating ''1,1'') loop_entry = Some (Inr st)"
    by blast
  then obtain g where run:
    "plot_example steady_env empty_plot ''Time (ms)'' ''Voltage (V)'' = Some (Returned st g)"
    by (simp add: plot_example_eq steady_env_def always_up_def)
  with connection_left_open [of steady_env 0 empty_plot "''Time (ms)''" "''Voltage (V)''" st g]
  show ?thesis by blast
qed

text \<open>The claim as the specification states it fails: after a run on a device that
  sends 200 good lines the call returns and the connection is open.\<close>

theorem connection_closed_counterexample:
  "map_option ser_is_open
     (returned_frame (plot_example steady_env empty_plot ''Time (ms)'' ''Voltage (V)'')) =
   Some True"
proof -
  from steady_loop obtain st :: frame
    where loop: "read_loop (repeating ''1,1'') loop_entry = Some (Inr st)"
    by blast
  from loop_exit_frame [OF loop] have "ser_is_open st"
    by (simp add: loop_inv_def)
  with loop show ?thesis
    by (simp add: plot_example_eq steady_env_def always_up_def)
qed

subsection \<open>Errors\<close>

text \<open>
  C6. Whatever a \<open>readline\<close> delivers (any text, or bytes that do not decode), the
  \<open>try\<close> body raises nothing but \<open>ValueError\<close> or its subclass \<open>UnicodeDecodeError\<close>, the
  handler swallows it and the loop body ends normally. The only exception with which
  \<open>plot_example\<close> ends is the one of \<open>serial.Serial\<close> when the port cannot be opened.
  (Writing to and reading from an open port are taken to succeed.)
\<close>

theorem parse_failures_absorbed:
  "(\<exists>st'. loop_body dev st = Inr st') \<and>
   (try_body dev st = Inl (ex', st'') \<longrightarrow> is_ValueError ex') \<and>
   (plot_example e plot xlabel ylabel = Some (Raised ex fr g) \<longrightarrow>
      ex = SerialException \<and> \<not> port_up e 0)"
proof (intro conjI impI)
  show "\<exists>st'. loop_body dev st = Inr st'"
    using loop_body_total by blast
next
  assume "try_body dev st = Inl (ex', st'')"
  then show "is_ValueError ex'" by (rule try_body_exc)
next
  assume "plot_example e plot xlabel ylabel = Some (Raised ex fr g)"
  from plot_example_Raised [OF this] show "ex = SerialException" by simp
next
  assume "plot_example e plot xlabel ylabel = Some (Raised ex fr g)"
  from plot_example_Raised [OF this] show "\<not> port_up e 0" by simp
qed

theorem parse_failures_absorbed_witness:
  "(\<exists>st'. loop_body (repeating ''abc,def'') loop_entry = Inr st') \<and>
   try_body (repeating ''abc,def'') loop_entry = Inl (ValueError, loop_entry\<lparr>ser_reads := 1\<rparr>) \<and>
   is_ValueError ValueError \<and>
   plot_example no_port_env empty_plot ''Time (ms)'' ''Voltage (V)'' =
     Some (Raised SerialException None empty_plot) \<and>
   \<not> port_up no_port_env 0"
proof -
  have "parse_line (Rx_text ''abc,def'') = Inl ValueError" by code_simp
  then have t: "try_body (repeating ''abc,def'') loop_entry =
      Inl (ValueError, loop_entry\<lparr>ser_reads := 1\<rparr>)"
    by (simp add: try_body_def repeating_def loop_entry_def)
  have p: "plot_example no_port_env empty_plot ''Time (ms)'' ''Voltage (V)'' =
      Some (Raised SerialException None empty_plot)"
    by (simp add: plot_example_eq no_port_env_def up_after_first_def)
  from parse_failures_absorbed
    [of "repeating ''abc,def''" loop_entry ValueError "loop_entry\<lparr>ser_reads := 1\<rparr>"
      no_port_env empty_plot "''Time (ms)''" "''Voltage (V)''" SerialException None empty_plot]
    t p
  show ?thesis by simp
qed

subsection \<open>The observed series\<close>

text \<open>
  C10. At every test of the loop condition, and in the frame with which the loop ends,
  \<open>times\<close> and \<open>volts\<close> have the same length, and paired up they are the samples of the
  lines read so far, in the order of arrival. One pass through the \<open>try\<close> body either
  raises with both lists unchanged or appends one value to each.
\<close>

theorem series_lengths_equal:
  "length (times_l (iterations dev n loop_entry)) = length (volts (iterations dev n loop_entry)) \<and>
   zip (times_l (iterations dev n loop_entry)) (volts (iterations dev n loop_entry)) =
     samples dev (ser_reads (iterations dev n loop_entry)) \<and>
   (read_loop dev loop_entry = Some r \<longrightarrow>
      (\<exists>st. r = Inr st \<and> length (times_l st) = length (volts st) \<and>
            zip (times_l st) (volts st) = samples dev (ser_reads st))) \<and>
   (try_body dev st = Inl (ex, st') \<longrightarrow> times_l st' = times_l st \<and> volts st' = volts st) \<and>
   (try_body dev st = Inr st' \<longrightarrow>
      (\<exists>t v. times_l st' = times_l st @ [t] \<and> volts st' = volts st @ [v]))"
proof -
  have inv: "\<And>s. loop_inv dev s \<Longrightarrow>
      length (times_l s) = length (volts s) \<and>
      zip (times_l s) (volts s) = samples dev (ser_reads s)"
    by (simp add: loop_inv_def zip_map_fst_snd)
  have a: "loop_inv dev (iterations dev n loop_entry)"
    by (rule loop_inv_iterations) (rule loop_inv_entry)
  have b: "read_loop dev loop_entry = Some r \<longrightarrow>
      (\<exists>st. r = Inr st \<and> length (times_l st) = length (volts st) \<and>
            zip (times_l st) (volts st) = samples dev (ser_reads st))"
  proof
    assume "read_loop dev loop_entry = Some r"
    from loop_exit_frame [OF this] obtain s :: frame where "r = Inr s" "loop_inv dev s"
      by blast
    with inv [of s] show "\<exists>st. r = Inr st \<and> length (times_l st) = length (volts st) \<and>
            zip (times_l st) (volts st) = samples dev (ser_reads st)"
      by blast
  qed
  have c: "try_body dev st = Inl (ex, st') \<longrightarrow> times_l st' = times_l st \<and> volts st' = volts st"
    by (auto simp: try_body_def Let_def split: sum.splits prod.splits)
  have d: "try_body dev st = Inr st' \<longrightarrow>
      (\<exists>t v. times_l st' = times_l st @ [t] \<and> volts st' = volts st @ [v])"
    by (auto simp: try_body_def Let_def split: sum.splits prod.splits)
  from inv [OF a] b c d show ?thesis by blast
qed

theorem series_lengths_equal_witness:
  "(\<exists>st. read_loop (repeating ''1,1'') loop_entry = Some (Inr st) \<and>
         length (times_l st) = length (volts st)) \<and>
   try_body (repeating ''30,'') loop_entry = Inl (ValueError, loop_entry\<lparr>ser_reads := 1\<rparr>) \<and>
   times_l (loop_entry\<lparr>ser_reads := 1\<rparr>) = times_l loop_entry \<and>
   (\<exists>st'. try_body (repeating ''1,1'') loop_entry = Inr st' \<and>
          times_l st' = [Num 1] \<and> volts st' = [Num 1])"
proof -
  from steady_loop obtain s :: frame
    where loop: "read_loop (repeating ''1,1'') loop_entry = Some (Inr s)"
    by blast
  have "parse_line (Rx_text ''30,'') = Inl ValueError" by code_simp
  then have t: "try_body (repeating ''30,'') loop_entry =
      Inl (ValueError, loop_entry\<lparr>ser_reads := 1\<rparr>)"
    by (simp add: try_body_def repeating_def loop_entry_def)
  have "parse_line (Rx_text ''1,1'') = Inr (Num 1, Num 1)" by code_simp
  then have u: "try_body (repeating ''1,1'') loop_entry =
      Inr (loop_entry\<lparr>ser_reads := 1, times_l := [Num 1], volts := [Num 1],
                      stop_condition := 10\<rparr>)"
    by (simp add: try_body_def repeating_def loop_entry_def)
  from series_lengths_equal [of "repeating ''1,1''" 0 "Inr s"] loop
  have "length (times_l s) = length (volts s)" by simp
  with loop have first: "\<exists>st. read_loop (repeating ''1,1'') loop_entry = Some (Inr st) \<and>
         length (times_l st) = length (volts st)"
    by blast
  from t u first show ?thesis by simp
qed

subsection \<open>The termination counter\<close>

text \<open>
  C1, as the code has it. \<open>stop_condition += 10\<close> is the last statement inside the
  \<open>try\<close>: a pass whose line parses adds 10, a pass whose line fails adds nothing, and
  every pass reads one line. So the loop ends exactly when 200 lines have parsed: it
  then holds 200 samples, its counter is 2000, and it has read 200 lines plus the
  rejected ones. It ends if and only if the device ever delivers its 200th good line.
\<close>

theorem counter_advances_on_success_only:
  "stop_condition (after_body dev st) =
     (if accepted (dev (ser_reads st)) then stop_condition st + 10 else stop_condition st) \<and>
   ser_reads (after_body dev st) = ser_reads st + 1 \<and>
   (read_loop dev loop_entry = Some r \<longrightarrow>
      (\<exists>st'. r = Inr st' \<and> stop_condition st' = 2000 \<and>
             length (times_l st') = 200 \<and> length (volts st') = 200 \<and>
             ser_reads st' = 200 + rejected dev (ser_reads st'))) \<and>
   ((\<exists>r'. read_loop dev loop_entry = Some r') \<longleftrightarrow> (\<exists>k. 200 \<le> length (samples dev k)))"
proof (intro conjI)
  show "stop_condition (after_body dev st) =
     (if accepted (dev (ser_reads st)) then stop_condition st + 10 else stop_condition st)"
    by (auto simp: after_body_eq accepted_sample_of split: option.splits)
next
  show "ser_reads (after_body dev st) = ser_reads st + 1"
    by (auto simp: after_body_eq split: option.splits)
next
  show "read_loop dev loop_entry = Some r \<longrightarrow>
      (\<exists>st'. r = Inr st' \<and> stop_condition st' = 2000 \<and>
             length (times_l st') = 200 \<and> length (volts st') = 200 \<and>
             ser_reads st' = 200 + rejected dev (ser_reads st'))"
  proof
    assume "read_loop dev loop_entry = Some r"
    from loop_exit_frame [OF this] obtain s :: frame where
      s: "r = Inr s" "loop_inv dev s" "stop_condition s = 2000"
         "length (samples dev (ser_reads s)) = 200"
      by blast
    from s(2,4) have "length (times_l s) = 200" "length (volts s) = 200"
      by (simp_all add: loop_inv_def)
    moreover from s(4) samples_rejected [of dev "ser_reads s"]
    have "ser_reads s = 200 + rejected dev (ser_reads s)" by simp
    ultimately show "\<exists>st'. r = Inr st' \<and> stop_condition st' = 2000 \<and>
             length (times_l st') = 200 \<and> length (volts st') = 200 \<and>
             ser_reads st' = 200 + rejected dev (ser_reads st')"
      using s(1,3) by blast
  qed
next
  show "(\<exists>r'. read_loop dev loop_entry = Some r') \<longleftrightarrow> (\<exists>k. 200 \<le> length (samples dev k))"
    by (rule loop_returns_iff)
qed

theorem counter_advances_on_success_only_witness:
  "\<exists>st. read_loop one_bad_line_first loop_entry = Some (Inr st) \<and>
        stop_condition st = 2000 \<and> length (times_l st) = 200 \<and>
        ser_reads st = 201 \<and> rejected one_bad_line_first 201 = 1"
proof -
  from bad_first_loop obtain s :: frame where
    loop: "read_loop one_bad_line_first loop_entry = Some (Inr s)" and r: "ser_reads s = 201"
    by blast
  from counter_advances_on_success_only [of one_bad_line_first loop_entry "Inr s"] loop
  have "stop_condition s = 2000 \<and> length (times_l s) = 200 \<and>
      ser_reads s = 200 + rejected one_bad_line_first (ser_reads s)"
    by simp
  with r have "stop_condition s = 2000 \<and> length (times_l s) = 200 \<and>
      ser_reads s = 201 \<and> rejected one_bad_line_first 201 = 1"
    by simp
  with loop show ?thesis by blast
qed

text \<open>The claim as the specification states it fails: on a device that keeps sending
  an unparsable line the counter is still 0 after the first read, and the call never
  returns.\<close>

theorem counter_advances_regardless_counterexample:
  "stop_condition (after_body (device garbage_env) loop_entry) = 0 \<and>
   ser_reads (after_body (device garbage_env) loop_entry) = 1 \<and>
   plot_example garbage_env empty_plot ''Time (ms)'' ''Voltage (V)'' = None"
proof -
  have rej: "\<And>i. \<not> accepted (repeating ''garbage'' i)"
    by (simp add: repeating_def rejected_garbage)
  then have none: "sample_of (repeating ''garbage'' 0) = None"
    by (simp only: rejected_sample_of)
  have "\<And>k. samples (repeating ''garbage'') k = []"
    using rej by (rule samples_none_accepted)
  then have "\<forall>k. length (samples (repeating ''garbage'') k) < 200" by simp
  then have "read_loop (repeating ''garbage'') loop_entry = None"
    using loop_diverges_iff by blast
  then have "plot_example garbage_env empty_plot ''Time (ms)'' ''Voltage (V)'' = None"
    by (simp add: plot_example_eq garbage_env_def always_up_def)
  moreover have "after_body (device garbage_env) loop_entry = loop_entry\<lparr>ser_reads := 1\<rparr>"
    using none by (simp add: after_body_eq garbage_env_def loop_entry_def)
  ultimately show ?thesis by (simp add: loop_entry_def)
qed

subsection \<open>Malformed lines\<close>

lemma five_lines_samples_5:
  "samples (then_silent five_lines) 5 = [(Num 12, Num 1.5), (Num 45, Num 2.1)]"
proof -
  have p: "parse_line (Rx_text ''12,1.5'') = Inr (Num 12, Num 1.5)"
    "parse_line (Rx_text ''garbage'') = Inl ValueError"
    "parse_line (Rx_text ''30,'') = Inl ValueError"
    "parse_line (Rx_text ''abc,def'') = Inl ValueError"
    "parse_line (Rx_text ''45,2.1'') = Inr (Num 45, Num 2.1)"
    by code_simp+
  have "samples (then_silent five_lines) (Suc (Suc (Suc (Suc (Suc 0))))) =
      [(Num 12, Num 1.5), (Num 45, Num 2.1)]"
    by (simp only: samples_Suc samples_0)
      (simp add: then_silent_def five_lines_def sample_of_def p)
  then show ?thesis by (simp add: eval_nat_numeral)
qed

lemma five_lines_samples_later:
  "samples (then_silent five_lines) (5 + n) = [(Num 12, Num 1.5), (Num 45, Num 2.1)]"
proof (induction n)
  case 0
  then show ?case by (simp add: five_lines_samples_5)
next
  case (Suc n)
  have "sample_of (then_silent five_lines (5 + n)) = None"
    using rejected_silence by (simp add: then_silent_def five_lines_def rejected_sample_of)
  with Suc have "samples (then_silent five_lines) (Suc (5 + n)) =
      [(Num 12, Num 1.5), (Num 45, Num 2.1)]"
    by (simp only: samples_Suc) simp
  then show ?case by (simp only: add_Suc_right)
qed

lemma five_lines_samples_short: "length (samples (then_silent five_lines) k) < 200"
proof (cases "k < 5")
  case True
  have "length (samples (then_silent five_lines) k) \<le> k"
    using samples_rejected [of "then_silent five_lines" k] by simp
  with True show ?thesis by simp
next
  case False
  then obtain n where "k = 5 + n" using le_Suc_ex [of 5 k] by auto
  then show ?thesis by (simp add: five_lines_samples_later)
qed

lemma five_lines_iterations:
  "ser_reads (iterations (then_silent five_lines) n loop_entry) = n"
proof -
  let ?dev = "then_silent five_lines"
  let ?st = "iterations ?dev n loop_entry"
  have inv: "loop_inv ?dev ?st"
    by (rule loop_inv_iterations) (rule loop_inv_entry)
  then have "stop_condition ?st = 10 * int (length (samples ?dev (ser_reads ?st)))"
    by (simp add: loop_inv_def)
  with five_lines_samples_short [of "ser_reads ?st"] have "stop_condition ?st \<le> 1990"
    by simp
  then have "ser_reads ?st = ser_reads loop_entry + n" by (rule iterations_reads)
  then show ?thesis by (simp add: loop_entry_def)
qed

text \<open>
  C4, as the code has it. Once the five lines \<open>12,1.5\<close>, \<open>garbage\<close>, \<open>30,\<close>, \<open>abc,def\<close>,
  \<open>45,2.1\<close> have been read, \<open>times\<close> is \<open>[12, 45]\<close> and \<open>volts\<close> is \<open>[1.5, 2.1]\<close>: the
  well-formed lines in the order of arrival, each malformed line dropped with the loop
  going on (five reads made, counter at 20). The lists stay so however long the device
  is silent afterwards, and the loop does not end on this stream: it waits for 200
  well-formed lines.
\<close>

theorem malformed_lines_dropped:
  "times_l (iterations (then_silent five_lines) (5 + n) loop_entry) = [Num 12, Num 45] \<and>
   volts (iterations (then_silent five_lines) (5 + n) loop_entry) = [Num 1.5, Num 2.1] \<and>
   stop_condition (iterations (then_silent five_lines) (5 + n) loop_entry) = 20 \<and>
   ser_reads (iterations (then_silent five_lines) (5 + n) loop_entry) = 5 + n \<and>
   read_loop (then_silent five_lines) loop_entry = None"
proof -
  let ?dev = "then_silent five_lines"
  let ?st = "iterations ?dev (5 + n) loop_entry"
  have r: "ser_reads ?st = 5 + n" by (rule five_lines_iterations)
  have "loop_inv ?dev ?st"
    by (rule loop_inv_iterations) (rule loop_inv_entry)
  then have "times_l ?st = [Num 12, Num 45]" "volts ?st = [Num 1.5, Num 2.1]"
    "stop_condition ?st = 20"
    by (simp_all add: loop_inv_def r five_lines_samples_later)
  moreover have "read_loop ?dev loop_entry = None"
    using five_lines_samples_short loop_diverges_iff by blast
  ultimately show ?thesis using r by simp
qed

text \<open>The claim as the specification states it fails: on this stream the call never
  returns, so it produces no series.\<close>

theorem parse_robustness_counterexample:
  "plot_example five_lines_env empty_plot ''Time (ms)'' ''Voltage (V)'' = None"
proof -
  have "read_loop (then_silent five_lines) loop_entry = None"
    using five_lines_samples_short loop_diverges_iff by blast
  then show ?thesis
    by (simp add: plot_example_eq five_lines_env_def always_up_def)
qed

subsection \<open>Whitespace\<close>

lemma rstrip_Cons:
  "rev (dropWhile P (rev (x # xs))) =
     (if \<forall>y\<in>set xs. P y then (if P x then [] else [x])
      else x # rev (dropWhile P (rev xs)))"
  by (simp add: dropWhile_append)

lemma lstrip_rstrip_commute:
  "dropWhile P (rev (dropWhile P (rev xs))) = rev (dropWhile P (rev (dropWhile P xs)))"
proof (induction xs)
  case Nil
  then show ?case by simp
next
  case (Cons x xs)
  show ?case
  proof (cases "P x")
    case True
    show ?thesis
    proof (cases "\<forall>y\<in>set xs. P y")
      case all: True
      with True have "dropWhile P (rev (x # xs)) = []" "dropWhile P (x # xs) = []"
        by simp_all
      then show ?thesis by (simp only:) simp
    next
      case False
      with True Cons.IH show ?thesis by (simp only: rstrip_Cons) simp
    qed
  next
    case False
    have "\<exists>ys. rev (dropWhile P (rev (x # xs))) = x # ys"
      unfolding rstrip_Cons using False by auto
    then obtain ys where ys: "rev (dropWhile P (rev (x # xs))) = x # ys" by blast
    from False have "dropWhile P (x # xs) = x # xs" by simp
    with False ys show ?thesis by (simp only:) simp
  qed
qed

text \<open>Whitespace added at either end does not change what stripping leaves.\<close>

lemma float_strip_whitespace_around:
  assumes "\<forall>c\<in>set w1. float_isspace c" "\<forall>c\<in>set w2. float_isspace c"
  shows "float_strip (w1 @ s @ w2) = float_strip s"
proof -
  have "float_strip (w1 @ s @ w2) =
      rev (dropWhile float_isspace (rev (dropWhile float_isspace (s @ w2))))"
    using assms(1) by (simp add: float_strip_def)
  also have "\<dots> = dropWhile float_isspace (rev (dropWhile float_isspace (rev (s @ w2))))"
    by (simp only: lstrip_rstrip_commute)
  also have "rev (s @ w2) = rev w2 @ rev s" by simp
  also have "dropWhile float_isspace (rev w2 @ rev s) = dropWhile float_isspace (rev s)"
    using assms(2) by (intro dropWhile_append2) auto
  also have "dropWhile float_isspace (rev (dropWhile float_isspace (rev s))) = float_strip s"
    by (simp only: lstrip_rstrip_commute float_strip_def)
  finally show ?thesis .
qed

lemma py_float_whitespace_around:
  "\<forall>c\<in>set w1. float_isspace c \<Longrightarrow> \<forall>c\<in>set w2. float_isspace c \<Longrightarrow>
   py_float (w1 @ s @ w2) = py_float s"
  by (simp only: py_float_def float_strip_whitespace_around)

lemma float_isspace_py_isspace: "float_isspace c \<Longrightarrow> py_isspace c"
  by (auto simp: float_isspace_def py_isspace_def Let_def)

lemma comma_not_space: "\<not> py_isspace (CHR '','')"
  by (simp add: py_isspace_def)

lemma split_no_sep: "sep \<notin> set s \<Longrightarrow> split sep s = [s]"
  by (induction s) auto

lemma split_one_sep:
  "sep \<notin> set a \<Longrightarrow> sep \<notin> set b \<Longrightarrow> split sep (a @ sep # b) = [a, b]"
  by (induction a) (auto simp: split_no_sep)

lemma strip_around_comma:
  "strip (a @ CHR '','' # b) =
     dropWhile py_isspace a @ CHR '','' # rev (dropWhile py_isspace (rev b))"
  by (simp add: strip_def dropWhile_append3 comma_not_space)

text \<open>A line with one comma parses as its two sides do under \<open>float()\<close>, the left side
  without the leading and the right side without the trailing whitespace of the line.\<close>

lemma parse_line_two_fields:
  assumes "CHR '','' \<notin> set a" "CHR '','' \<notin> set b"
  shows "parse_line (Rx_text (a @ CHR '','' # b)) =
     (case py_float (dropWhile py_isspace a) of
        Inl e \<Rightarrow> Inl e
      | Inr x \<Rightarrow>
          (case py_float (rev (dropWhile py_isspace (rev b))) of
             Inl e \<Rightarrow> Inl e
           | Inr y \<Rightarrow> Inr (x, y)))"
proof -
  let ?a = "dropWhile py_isspace a"
  let ?b = "rev (dropWhile py_isspace (rev b))"
  have na: "CHR '','' \<notin> set ?a"
    using assms(1) set_dropWhileD by fastforce
  have "set ?b \<subseteq> set b"
    using set_dropWhileD [of _ py_isspace "rev b"] by auto
  then have nb: "CHR '','' \<notin> set ?b"
    using assms(2) by blast
  have "split (CHR '','') (strip (a @ CHR '','' # b)) = [?a, ?b]"
    by (simp only: strip_around_comma split_one_sep [OF na nb])
  then show ?thesis
    by (simp add: parse_line_def Let_def split: sum.splits)
qed

text \<open>Whitespace of \<open>float()\<close> after the left field or before the right field does not
  change what \<open>float()\<close> makes of the field as the line delivers it.\<close>

lemma left_field_padding:
  assumes "\<forall>c\<in>set w1. float_isspace c" "\<forall>c\<in>set w2. float_isspace c"
  shows "py_float (dropWhile py_isspace (w1 @ a @ w2)) = py_float (dropWhile py_isspace a)"
proof -
  have p1: "\<And>x. x \<in> set w1 \<Longrightarrow> py_isspace x" and p2: "\<And>x. x \<in> set w2 \<Longrightarrow> py_isspace x"
    using assms float_isspace_py_isspace by blast+
  have one: "dropWhile py_isspace (w1 @ a @ w2) = dropWhile py_isspace (a @ w2)"
    using p1 by (rule dropWhile_append2)
  show ?thesis
  proof (cases "\<forall>x\<in>set a. py_isspace x")
    case True
    then have e: "dropWhile py_isspace (a @ w2) = []" "dropWhile py_isspace a = []"
      using p2 by auto
    show ?thesis by (simp only: one e)
  next
    case False
    then have "dropWhile py_isspace (a @ w2) = dropWhile py_isspace a @ w2"
      by (auto simp: dropWhile_append)
    with one have "dropWhile py_isspace (w1 @ a @ w2) = [] @ dropWhile py_isspace a @ w2"
      by simp
    moreover have "py_float ([] @ dropWhile py_isspace a @ w2) = py_float (dropWhile py_isspace a)"
      using assms(2) by (intro py_float_whitespace_around) simp_all
    ultimately show ?thesis by simp
  qed
qed

lemma right_field_padding:
  assumes "\<forall>c\<in>set w3. float_isspace c" "\<forall>c\<in>set w4. float_isspace c"
  shows "py_float (rev (dropWhile py_isspace (rev (w3 @ b @ w4)))) =
         py_float (rev (dropWhile py_isspace (rev b)))"
proof -
  have p3: "\<And>x. x \<in> set (rev w3) \<Longrightarrow> py_isspace x"
    and p4: "\<And>x. x \<in> set (rev w4) \<Longrightarrow> py_isspace x"
    using assms float_isspace_py_isspace by auto
  have "rev (w3 @ b @ w4) = rev w4 @ rev b @ rev w3" by simp
  moreover have "dropWhile py_isspace (rev w4 @ rev b @ rev w3) =
      dropWhile py_isspace (rev b @ rev w3)"
    using p4 by (rule dropWhile_append2)
  ultimately have one: "dropWhile py_isspace (rev (w3 @ b @ w4)) =
      dropWhile py_isspace (rev b @ rev w3)"
    by simp
  show ?thesis
  proof (cases "\<forall>x\<in>set b. py_isspace x")
    case True
    then have e: "dropWhile py_isspace (rev b @ rev w3) = []" "dropWhile py_isspace (rev b) = []"
      using p3 by auto
    show ?thesis by (simp only: one e)
  next
    case False
    then have "dropWhile py_isspace (rev b @ rev w3) = dropWhile py_isspace (rev b) @ rev w3"
      by (auto simp: dropWhile_append)
    with one have "rev (dropWhile py_isspace (rev (w3 @ b @ w4))) =
        w3 @ rev (dropWhile py_isspace (rev b)) @ []"
      by simp
    moreover have "py_float (w3 @ rev (dropWhile py_isspace (rev b)) @ []) =
        py_float (rev (dropWhile py_isspace (rev b)))"
      using assms(1) by (intro py_float_whitespace_around) simp_all
    ultimately show ?thesis by simp
  qed
qed

text \<open>
  C9, as the code has it. Besides the whitespace around the whole line, parsing also
  accepts whitespace around each of the two fields, because \<open>float()\<close> strips its
  argument: a line with one comma parses the same with or without whitespace (tab,
  line feed, vertical tab, form feed, carriage return, space, or the code points 0x85
  and 0xA0) before and after either field. So \<open>12 , 1.5\<close> is accepted as the sample
  (12, 1.5).
\<close>

theorem field_whitespace_tolerated:
  assumes "CHR '','' \<notin> set a" and "CHR '','' \<notin> set b"
    and "\<forall>c\<in>set (w1 @ w2 @ w3 @ w4). float_isspace c"
  shows "parse_line (Rx_text (w1 @ a @ w2 @ '','' @ w3 @ b @ w4)) =
         parse_line (Rx_text (a @ '','' @ b))"
proof -
  from assms(3) have w: "\<forall>c\<in>set w1. float_isspace c" "\<forall>c\<in>set w2. float_isspace c"
    "\<forall>c\<in>set w3. float_isspace c" "\<forall>c\<in>set w4. float_isspace c"
    by auto
  have nw: "\<And>ws. \<forall>c\<in>set ws. float_isspace c \<Longrightarrow> CHR '','' \<notin> set ws"
    using comma_not_space float_isspace_py_isspace by blast
  have na: "CHR '','' \<notin> set (w1 @ a @ w2)"
    using assms(1) nw [OF w(1)] nw [OF w(2)] by simp
  have nb: "CHR '','' \<notin> set (w3 @ b @ w4)"
    using assms(2) nw [OF w(3)] nw [OF w(4)] by simp
  have "parse_line (Rx_text ((w1 @ a @ w2) @ CHR '','' # (w3 @ b @ w4))) =
      parse_line (Rx_text (a @ CHR '','' # b))"
    by (simp only: parse_line_two_fields [OF na nb] parse_line_two_fields [OF assms(1,2)]
        left_field_padding [OF w(1,2)] right_field_padding [OF w(3,4)])
  then show ?thesis by simp
qed

theorem field_whitespace_tolerated_witness:
  "parse_line (Rx_text ''12 , 1.5'') = parse_line (Rx_text ''12,1.5'') \<and>
   parse_line (Rx_text ''12,1.5'') = Inr (Num 12, Num 1.5)"
proof -
  have a: "CHR '','' \<notin> set ''12''" by simp
  have b: "CHR '','' \<notin> set ''1.5''" by simp
  have w: "\<forall>c\<in>set ('''' @ '' '' @ '' '' @ ''''). float_isspace c"
    by (simp add: float_isspace_def)
  have p: "parse_line (Rx_text ''12,1.5'') = Inr (Num 12, Num 1.5)" by code_simp
  from field_whitespace_tolerated [OF a b w] p show ?thesis by simp
qed

text \<open>The claim as the specification states it fails: the line \<open>12 , 1.5\<close>, with
  whitespace on both sides of the comma, is accepted, and gives the sample (12, 1.5).\<close>

theorem inner_whitespace_rejected_counterexample:
  "accepted (Rx_text ''12 , 1.5'') \<and>
   parse_line (Rx_text ''12 , 1.5'') = Inr (Num 12, Num 1.5)"
proof -
  have "parse_line (Rx_text ''12 , 1.5'') = Inr (Num 12, Num 1.5)" by code_simp
  then show ?thesis by (simp add: accepted_def)
qed

end
